theory Spec2Isabelle
  imports Complex_Main "HOL-Library.Word"
begin

unbundle bit_operations_syntax

section \<open>The Syma S107 infrared driver (syma\_driver.c)\<close>

text \<open>
  The sketch drives two output pins and the serial port. Every call that touches the
  outside world is recorded as an event, in program order; a function of the sketch
  that returns nothing is modelled by the list of events it produces.
\<close>

type_synonym byte = "8 word"

datatype level = LOW | HIGH

datatype event =
    DigitalWrite nat level      \<comment> \<open>\<^verbatim>\<open>digitalWrite(pin, level)\<close>\<close>
  | DelayMicroseconds nat       \<comment> \<open>\<^verbatim>\<open>delayMicroseconds(us)\<close>\<close>
  | Delay "32 word"             \<comment> \<open>\<^verbatim>\<open>delay(ms)\<close>, whose parameter is an \<^verbatim>\<open>unsigned long\<close>\<close>
  | SerialWrite byte            \<comment> \<open>\<^verbatim>\<open>Serial.write(b)\<close>\<close>

subsection \<open>The constants\<close>

definition LED :: nat where "LED = 8"
definition STATUS :: nat where "STATUS = 13"

definition YAW :: int where "YAW = 0"
definition PITCH :: int where "PITCH = 1"
definition THROTTLE :: int where "THROTTLE = 2"
definition TRIM :: int where "TRIM = 3"

definition BYTES_IN_PACKET :: int where "BYTES_IN_PACKET = 4"
definition BITS_IN_BYTE :: int where "BITS_IN_BYTE = 8"

definition PACKETS_PER_SECOND :: int where "PACKETS_PER_SECOND = 10"
definition MICROSECONDS_IN_A_SECOND :: int where "MICROSECONDS_IN_A_SECOND = 1000"

definition ZERO_YAW :: byte where "ZERO_YAW = 63"
definition ZERO_PITCH :: byte where "ZERO_PITCH = 63"
definition ZERO_THROTTLE :: byte where "ZERO_THROTTLE = 0"
definition ZERO_TRIM :: byte where "ZERO_TRIM = 63"

definition CYCLES_FOR_HEADER :: int where "CYCLES_FOR_HEADER = 77"
definition CYCLES_FOR_BIT :: int where "CYCLES_FOR_BIT = 12"
definition CYCLES_FOR_FOOTER :: int where "CYCLES_FOR_FOOTER = 12"
definition CYCLE_TIME :: int where "CYCLE_TIME = 26"

definition HEADER_DELAY :: int where "HEADER_DELAY = 1998"
definition ONE :: int where "ONE = 688"
definition ZERO :: int where "ZERO = 288"

definition BIT_0 :: byte where "BIT_0 = 1"
definition BIT_1 :: byte where "BIT_1 = 2"
definition BIT_2 :: byte where "BIT_2 = 4"
definition BIT_3 :: byte where "BIT_3 = 8"
definition BIT_4 :: byte where "BIT_4 = 16"
definition BIT_5 :: byte where "BIT_5 = 32"
definition BIT_6 :: byte where "BIT_6 = 64"
definition BIT_7 :: byte where "BIT_7 = 128"

definition READY_TO_ACCEPT_ACK :: byte where "READY_TO_ACCEPT_ACK = 129"

subsection \<open>pulse, header, footer, one, zero\<close>

text \<open>
  One pass through the body of the loop of \<^verbatim>\<open>pulse\<close>: the LED pin goes high, the
  sketch waits 10us, the pin goes low, the sketch waits 10us.
\<close>

definition carrier_cycle :: "event list" where
  "carrier_cycle =
     [DigitalWrite LED HIGH, DelayMicroseconds 10, DigitalWrite LED LOW, DelayMicroseconds 10]"

text \<open>
  \<^verbatim>\<open>void pulse(int cycles) { while(cycles > 0) { ...; cycles--; } }\<close>
  The parameter is a C \<^verbatim>\<open>int\<close>; it is only decremented while it is positive, so it
  never leaves the range of the type.
\<close>

function pulse :: "int \<Rightarrow> event list" where
  "pulse cycles = (if cycles > 0 then carrier_cycle @ pulse (cycles - 1) else [])"
  by pat_completeness auto
termination
  by (relation "measure nat") auto

declare pulse.simps [simp del]

definition header :: "event list" where
  "header = pulse CYCLES_FOR_HEADER @ [DelayMicroseconds (nat HEADER_DELAY)]"

definition footer :: "event list" where
  "footer = pulse CYCLES_FOR_FOOTER"

definition one :: "event list" where
  "one = [DelayMicroseconds (nat ONE)]"

definition zero :: "event list" where
  "zero = [DelayMicroseconds (nat ZERO)]"


subsection \<open>Arrays of four bytes\<close>

text \<open>
  \<^verbatim>\<open>byte command[4]\<close> and \<^verbatim>\<open>static byte packet_bytes[4]\<close> always hold exactly four
  bytes. A read with a variable index returns \<open>None\<close> when the index is outside
  \<open>0..3\<close>, where the C program would read outside the array.
\<close>

type_synonym byte4 = "byte \<times> byte \<times> byte \<times> byte"

definition read4 :: "byte4 \<Rightarrow> int \<Rightarrow> byte option" where
  "read4 a i =
     (case a of (b0, b1, b2, b3) \<Rightarrow>
        if i = 0 then Some b0 else if i = 1 then Some b1
        else if i = 2 then Some b2 else if i = 3 then Some b3 else None)"

definition write4 :: "byte4 \<Rightarrow> int \<Rightarrow> byte \<Rightarrow> byte4" where
  "write4 a i v =
     (case a of (b0, b1, b2, b3) \<Rightarrow>
        if i = 0 then (v, b1, b2, b3) else if i = 1 then (b0, v, b2, b3)
        else if i = 2 then (b0, b1, v, b3) else if i = 3 then (b0, b1, b2, v) else a)"

text \<open>\<^verbatim>\<open>static const byte bit_masks[] = {BIT_0, ..., BIT_7}\<close>, read with a checked index.\<close>

definition bit_masks :: "byte list" where
  "bit_masks = [BIT_0, BIT_1, BIT_2, BIT_3, BIT_4, BIT_5, BIT_6, BIT_7]"

definition read_mask :: "int \<Rightarrow> byte option" where
  "read_mask i = (if 0 \<le> i \<and> i < 8 then Some (bit_masks ! nat i) else None)"

subsection \<open>The arithmetic of C\<close>

text \<open>
  The width of \<^verbatim>\<open>int\<close> is not fixed by the sketch: it is 16 bits on the AVR boards
  (Uno, Nano, Mega) and 32 bits on the ARM boards. The width \<open>w\<close> is a parameter of
  the model. The result of an \<^verbatim>\<open>int\<close> operation is reduced to the two's-complement
  range of \<open>w\<close> bits, which is what the compilers for these boards produce when a signed
  operation overflows. The counters and indices of \<^verbatim>\<open>sendPacket\<close> stay between -1 and
  32 and are left unreduced.
\<close>

definition int_wrap :: "nat \<Rightarrow> int \<Rightarrow> int" where
  "int_wrap w x = signed_take_bit (w - 1) x"

text \<open>
  \<^verbatim>\<open>float\<close> is IEEE 754 single precision, modelled by the rational numbers it can
  represent: 24 significant bits, exponents from -126 to 127, denormalised numbers
  below, rounding to nearest with ties to even. Infinities are not modelled; no value
  computed by the sketch comes near \<open>2 ^ 128\<close>.
\<close>

definition round_half_even :: "rat \<Rightarrow> int" where
  "round_half_even x =
     (let f = \<lfloor>x\<rfloor>; r = x - of_int f
      in if r < 1 / 2 then f else if 1 / 2 < r then f + 1 else if even f then f else f + 1)"

text \<open>
  \<open>exponent_search a e n\<close> tries the exponents \<open>e, e - 1, \<dots>\<close> (at most \<open>n\<close> of
  them) and returns the first whose power of two is not above \<open>a\<close>.
\<close>

fun exponent_search :: "rat \<Rightarrow> int \<Rightarrow> nat \<Rightarrow> int" where
  "exponent_search a e 0 = e"
| "exponent_search a e (Suc n) = (if 2 powi e \<le> a then e else exponent_search a (e - 1) n)"

definition float_exponent :: "rat \<Rightarrow> int" where
  "float_exponent x = exponent_search \<bar>x\<bar> 127 253"

definition fl32 :: "rat \<Rightarrow> rat" where
  "fl32 x = (let u = 2 powi (float_exponent x - 23) in of_int (round_half_even (x / u)) * u)"

definition int_to_float :: "int \<Rightarrow> rat" where
  "int_to_float i = fl32 (of_int i)"

definition float_div :: "rat \<Rightarrow> rat \<Rightarrow> rat" where
  "float_div a b = fl32 (a / b)"

definition float_sub :: "rat \<Rightarrow> rat \<Rightarrow> rat" where
  "float_sub a b = fl32 (a - b)"

text \<open>The conversion from \<^verbatim>\<open>float\<close> to \<^verbatim>\<open>int\<close> discards the fractional part.\<close>

definition float_to_int :: "rat \<Rightarrow> int" where
  "float_to_int x = (if 0 \<le> x then \<lfloor>x\<rfloor> else \<lceil>x\<rceil>)"

subsection \<open>sendPacket\<close>

text \<open>
  The \<^verbatim>\<open>static\<close> variables of \<^verbatim>\<open>sendPacket\<close> keep their values from one call to
  the next, so they are a state that every call receives and returns. C initialises
  them to zero.
\<close>

record statics =
  current_byte_index :: int
  current_bit_index :: int
  ones :: int
  zeroes :: int
  packet_bytes :: byte4

definition initial_statics :: statics where
  "initial_statics =
     \<lparr>current_byte_index = 0, current_bit_index = 0, ones = 0, zeroes = 0,
      packet_bytes = (0, 0, 0, 0)\<rparr>"

text \<open>
  The body of the \<^verbatim>\<open>while\<close> loop (lines 188 to 206): the pulses that start a bit, the
  test of the bit under the mask, with the decrement of \<^verbatim>\<open>current_bit_index\<close> inside the
  test, the delay for a one or a zero, and the move to the next byte.
\<close>

definition send_bit :: "statics \<Rightarrow> (statics \<times> event list) option" where
  "send_bit s =
     (case (read4 (packet_bytes s) (current_byte_index s), read_mask (current_bit_index s)) of
        (Some b, Some m) \<Rightarrow>
          let s1 = s\<lparr>current_bit_index := current_bit_index s - 1\<rparr>;
              (s2, evs) =
                (if b AND m \<noteq> 0
                 then (s1\<lparr>ones := ones s1 + 1\<rparr>, pulse CYCLES_FOR_BIT @ one)
                 else (s1\<lparr>zeroes := zeroes s1 + 1\<rparr>, pulse CYCLES_FOR_BIT @ zero));
              s3 =
                (if current_bit_index s2 < 0
                 then s2\<lparr>current_bit_index := BITS_IN_BYTE - 1,
                         current_byte_index := current_byte_index s2 + 1\<rparr>
                 else s2)
          in Some (s3, evs)
      | _ \<Rightarrow> None)"

function send_bits :: "statics \<Rightarrow> event list \<Rightarrow> (statics \<times> event list) option" where
  "send_bits s tr =
     (if current_byte_index s < BYTES_IN_PACKET
      then (case send_bit s of
              None \<Rightarrow> None
            | Some (s', evs) \<Rightarrow> send_bits s' (tr @ evs))
      else Some (s, tr))"
  by pat_completeness auto
termination
proof (relation "measures [\<lambda>(s, tr). nat (4 - current_byte_index s),
                           \<lambda>(s, tr). nat (current_bit_index s)]")
  show "wf (measures [\<lambda>(s, tr). nat (4 - current_byte_index s),
                      \<lambda>(s, tr :: event list). nat (current_bit_index s)])"
    by simp
next
  fix s :: statics and tr :: "event list" and x2 x y
  assume "current_byte_index s < BYTES_IN_PACKET" "send_bit s = Some x2" "(x, y) = x2"
  then show "((x, tr @ y), s, tr)
      \<in> measures [\<lambda>(s, tr). nat (4 - current_byte_index s),
                   \<lambda>(s, tr). nat (current_bit_index s)]"
    by (auto simp: send_bit_def read_mask_def read4_def BYTES_IN_PACKET_def BITS_IN_BYTE_def
          Let_def split: option.splits if_splits prod.splits)
qed

declare send_bits.simps [simp del]

text \<open>
  Lines 219 to 224: the time of one packet in microseconds, from the counters.
\<close>

definition total_packet_time :: "nat \<Rightarrow> int \<Rightarrow> int \<Rightarrow> int" where
  "total_packet_time w n_ones n_zeroes =
     (let header_time = int_wrap w (int_wrap w (CYCLES_FOR_HEADER * CYCLE_TIME) + HEADER_DELAY);
          footer_time = int_wrap w (CYCLES_FOR_FOOTER * CYCLE_TIME);
          total_bit_start_time =
            int_wrap w (int_wrap w (int_wrap w (CYCLES_FOR_BIT * CYCLE_TIME) * BITS_IN_BYTE)
                        * BYTES_IN_PACKET);
          ones_time = int_wrap w (ONE * n_ones);
          zeroes_time = int_wrap w (ZERO * n_zeroes)
      in int_wrap w (int_wrap w (int_wrap w (int_wrap w (header_time + footer_time)
           + total_bit_start_time) + ones_time) + zeroes_time))"

text \<open>
  Line 226, the returned expression:
  \<^verbatim>\<open>(MICROSECONDS_IN_A_SECOND / PACKETS_PER_SECOND) - ((float) total_packet_time / MICROSECONDS_IN_A_SECOND)\<close>.
  The first quotient is an integer division of positive constants; the cast makes the
  second a \<^verbatim>\<open>float\<close> division, so the subtraction is done in \<^verbatim>\<open>float\<close> and the
  \<^verbatim>\<open>return\<close> converts its result to \<^verbatim>\<open>int\<close>.
\<close>

definition delay_of_total :: "int \<Rightarrow> int" where
  "delay_of_total t =
     float_to_int
       (float_sub (int_to_float (MICROSECONDS_IN_A_SECOND div PACKETS_PER_SECOND))
          (float_div (int_to_float t) (int_to_float MICROSECONDS_IN_A_SECOND)))"

definition variable_delay :: "nat \<Rightarrow> int \<Rightarrow> int \<Rightarrow> int" where
  "variable_delay w n_ones n_zeroes = delay_of_total (total_packet_time w n_ones n_zeroes)"

text \<open>
  \<^verbatim>\<open>int sendPacket(byte yaw, byte pitch, byte throttle, byte trim)\<close>: the returned
  value, the static variables after the call, and the events of the call. The result is
  \<open>None\<close> if the loop reads outside an array.
\<close>

definition sendPacket ::
  "nat \<Rightarrow> statics \<Rightarrow> byte \<Rightarrow> byte \<Rightarrow> byte \<Rightarrow> byte \<Rightarrow> (int \<times> statics \<times> event list) option"
where
  "sendPacket w s yaw pitch throttle trim =
     (let s1 = s\<lparr>ones := 0, zeroes := 0\<rparr>;
          s2 = s1\<lparr>packet_bytes :=
                 write4 (write4 (write4 (write4 (packet_bytes s1) YAW yaw) PITCH pitch)
                   THROTTLE throttle) TRIM trim\<rparr>;
          s3 = s2\<lparr>current_byte_index := 0, current_bit_index := BITS_IN_BYTE - 1\<rparr>
      in case send_bits s3 ([DigitalWrite STATUS HIGH] @ header) of
           None \<Rightarrow> None
         | Some (s4, tr) \<Rightarrow>
             Some (variable_delay w (ones s4) (zeroes s4), s4,
                   tr @ footer @ [DigitalWrite STATUS LOW]))"

subsection \<open>loop\<close>

text \<open>
  The state of the sketch between two passes of \<^verbatim>\<open>while(1)\<close>: the global
  \<^verbatim>\<open>command\<close>, the static variables of \<^verbatim>\<open>sendPacket\<close>, and the bytes waiting in the
  receive buffer of the serial port, oldest first.
\<close>

record driver =
  command :: byte4
  send_statics :: statics
  serial_rx :: "byte list"

definition initial_driver :: "byte list \<Rightarrow> driver" where
  "initial_driver rx =
     \<lparr>command = (ZERO_YAW, ZERO_PITCH, ZERO_THROTTLE, ZERO_TRIM),
      send_statics = initial_statics, serial_rx = rx\<rparr>"

text \<open>
  \<^verbatim>\<open>Serial.available()\<close> is the number of bytes waiting; \<^verbatim>\<open>Serial.read()\<close> removes
  and returns the oldest one, or returns -1 when there is none.
\<close>

definition Serial_available :: "byte list \<Rightarrow> int" where
  "Serial_available rx = int (length rx)"

definition Serial_read :: "byte list \<Rightarrow> int \<times> byte list" where
  "Serial_read rx = (case rx of [] \<Rightarrow> (- 1, []) | b # bs \<Rightarrow> (uint b, bs))"

text \<open>\<^verbatim>\<open>for(int i = 0; i < 4; i++) command[i] = Serial.read();\<close>\<close>

function read_command :: "int \<Rightarrow> byte4 \<Rightarrow> byte list \<Rightarrow> byte4 \<times> byte list" where
  "read_command i cmd rx =
     (if i < 4
      then (case Serial_read rx of (v, rx') \<Rightarrow> read_command (i + 1) (write4 cmd i (word_of_int v)) rx')
      else (cmd, rx))"
  by pat_completeness auto
termination
  by (relation "measure (\<lambda>(i, cmd, rx). nat (4 - i))") auto

declare read_command.simps [simp del]

text \<open>Lines 263 to 267: the update of \<^verbatim>\<open>command\<close> from the serial port.\<close>

definition poll_update :: "driver \<Rightarrow> driver" where
  "poll_update d =
     (if Serial_available (serial_rx d) \<ge> BYTES_IN_PACKET
      then (case read_command 0 (command d) (serial_rx d) of
              (cmd, rx') \<Rightarrow> d\<lparr>command := cmd, serial_rx := rx'\<rparr>)
      else d)"

text \<open>
  The argument of \<^verbatim>\<open>delay\<close> is an \<^verbatim>\<open>unsigned long\<close> of 32 bits: the \<^verbatim>\<open>int\<close> that
  \<^verbatim>\<open>sendPacket\<close> returns is converted at the call.
\<close>

definition delay_argument :: "int \<Rightarrow> 32 word" where
  "delay_argument r = word_of_int r"

text \<open>
  One pass through the body of \<^verbatim>\<open>while(1)\<close> (lines 263 to 273). The elements of
  \<^verbatim>\<open>command\<close> are read with the constant indices 0 to 3.
\<close>

definition loop_body :: "nat \<Rightarrow> driver \<Rightarrow> (driver \<times> event list) option" where
  "loop_body w d =
     (let d1 = poll_update d
      in case command d1 of (yaw, pitch, throttle, trim) \<Rightarrow>
           (case sendPacket w (send_statics d1) yaw pitch throttle trim of
              None \<Rightarrow> None
            | Some (r, s', tr) \<Rightarrow>
                Some (d1\<lparr>send_statics := s'\<rparr>,
                      tr @ [Delay (delay_argument r), SerialWrite READY_TO_ACCEPT_ACK])))"



subsection \<open>A receiver for the pulse train\<close>

text \<open>
  The specification describes the receiver: it detects the header, reads 32 bits by
  comparing the length of the low period after each burst of 12 cycles with a threshold
  between 288us and 688us, detects the footer, and assembles four bytes, most
  significant bit first. The definitions below follow that description; they are not
  part of the sketch.
\<close>

definition ir_events :: "event list \<Rightarrow> event list" where
  "ir_events tr =
     filter (\<lambda>e. case e of DigitalWrite p l \<Rightarrow> p = LED | DelayMicroseconds n \<Rightarrow> True
                 | _ \<Rightarrow> False) tr"

function count_cycles :: "event list \<Rightarrow> nat \<times> event list" where
  "count_cycles evs =
     (if take 4 evs = carrier_cycle
      then (case count_cycles (drop 4 evs) of (n, rest) \<Rightarrow> (Suc n, rest))
      else (0, evs))"
  by pat_completeness auto
termination
proof (relation "measure length")
  show "wf (measure (length :: event list \<Rightarrow> nat))" by simp
next
  fix evs :: "event list"
  assume "take 4 evs = carrier_cycle"
  then have "length (take 4 evs) = 4" by (simp add: carrier_cycle_def)
  then have "4 \<le> length evs" by simp
  then show "(drop 4 evs, evs) \<in> measure length" by simp
qed

declare count_cycles.simps [simp del]

definition receiver_threshold :: nat where
  "receiver_threshold = 488"

definition receive_bit :: "event list \<Rightarrow> (bool \<times> event list) option" where
  "receive_bit evs =
     (case count_cycles evs of
        (n, DelayMicroseconds d # rest) \<Rightarrow>
          if n = 12 then Some (receiver_threshold < d, rest) else None
      | _ \<Rightarrow> None)"

fun receive_bits :: "nat \<Rightarrow> event list \<Rightarrow> (bool list \<times> event list) option" where
  "receive_bits 0 evs = Some ([], evs)"
| "receive_bits (Suc n) evs =
     (case receive_bit evs of
        None \<Rightarrow> None
      | Some (b, rest) \<Rightarrow>
          (case receive_bits n rest of
             None \<Rightarrow> None
           | Some (bs, rest') \<Rightarrow> Some (b # bs, rest')))"

definition receive_header :: "event list \<Rightarrow> event list option" where
  "receive_header evs =
     (case count_cycles evs of
        (n, DelayMicroseconds d # rest) \<Rightarrow> if n = 77 \<and> d = 1998 then Some rest else None
      | _ \<Rightarrow> None)"

definition receive_footer :: "event list \<Rightarrow> bool" where
  "receive_footer evs = (count_cycles evs = (12, []))"

text \<open>Eight received bits as a byte, the first bit received being the most significant.\<close>

definition byte_of_bits :: "bool list \<Rightarrow> byte" where
  "byte_of_bits bs = horner_sum of_bool 2 (rev bs)"

definition receive_packet :: "event list \<Rightarrow> byte list option" where
  "receive_packet tr =
     (case receive_header (ir_events tr) of
        None \<Rightarrow> None
      | Some evs \<Rightarrow>
          (case receive_bits 32 evs of
             None \<Rightarrow> None
           | Some (bs, rest) \<Rightarrow>
               if receive_footer rest
               then Some [byte_of_bits (take 8 bs), byte_of_bits (take 8 (drop 8 bs)),
                          byte_of_bits (take 8 (drop 16 bs)),
                          byte_of_bits (take 8 (drop 24 bs))]
               else None))"

subsection \<open>Notions used in the statements\<close>

text \<open>
  The bits of a byte from bit 7 down to bit 0, the 32 bits of a command in the order
  Yaw, Pitch, Throttle, Trim, and the events that encode one bit: the burst of 12
  cycles and the delay for a one or for a zero.
\<close>

definition bits_msb_first :: "byte \<Rightarrow> bool list" where
  "bits_msb_first b = map (bit b) [7, 6, 5, 4, 3, 2, 1, 0]"

definition packet_bits :: "byte4 \<Rightarrow> bool list" where
  "packet_bits a =
     (case a of (b0, b1, b2, b3) \<Rightarrow>
        bits_msb_first b0 @ bits_msb_first b1 @ bits_msb_first b2 @ bits_msb_first b3)"

definition symbol :: "bool \<Rightarrow> event list" where
  "symbol b = pulse CYCLES_FOR_BIT @ (if b then one else zero)"

section \<open>Properties\<close>

lemmas constant_defs =
  LED_def STATUS_def YAW_def PITCH_def THROTTLE_def TRIM_def BYTES_IN_PACKET_def
  BITS_IN_BYTE_def PACKETS_PER_SECOND_def MICROSECONDS_IN_A_SECOND_def ZERO_YAW_def
  ZERO_PITCH_def ZERO_THROTTLE_def ZERO_TRIM_def CYCLES_FOR_HEADER_def CYCLES_FOR_BIT_def
  CYCLES_FOR_FOOTER_def CYCLE_TIME_def HEADER_DELAY_def ONE_def ZERO_def
  READY_TO_ACCEPT_ACK_def BIT_0_def BIT_1_def BIT_2_def BIT_3_def
  BIT_4_def BIT_5_def BIT_6_def BIT_7_def

subsection \<open>Rounding to single precision\<close>

lemma round_half_even_error: "\<bar>of_int (round_half_even x) - x\<bar> \<le> 1 / 2"
proof -
  have "of_int \<lfloor>x\<rfloor> \<le> x" "x < of_int \<lfloor>x\<rfloor> + 1" by linarith+
  then show ?thesis
    by (auto simp: round_half_even_def Let_def)
qed

lemma round_half_even_of_int: "round_half_even (of_int k) = k"
  by (simp add: round_half_even_def)

lemma exponent_search_range: "e - int n \<le> exponent_search a e n \<and> exponent_search a e n \<le> e"
proof (induction n arbitrary: e)
  case 0
  show ?case by simp
next
  case (Suc n)
  from Suc.IH [of "e - 1"] show ?case by auto
qed

lemma exponent_search_lower:
  "2 powi (exponent_search a e n) \<le> a \<or> exponent_search a e n = e - int n"
proof (induction n arbitrary: e)
  case 0
  show ?case by simp
next
  case (Suc n)
  from Suc.IH [of "e - 1"] show ?case by auto
qed

lemma exponent_search_upper:
  "a < 2 powi (e + 1) \<Longrightarrow> a < 2 powi (exponent_search a e n + 1)"
proof (induction n arbitrary: e)
  case 0
  then show ?case by simp
next
  case (Suc n)
  show ?case
  proof (cases "2 powi e \<le> a")
    case True
    with Suc.prems show ?thesis by simp
  next
    case False
    then have "a < 2 powi ((e - 1) + 1)" by simp
    from Suc.IH [OF this] False show ?thesis by simp
  qed
qed

lemma float_exponent_props:
  assumes "\<bar>x\<bar> < 2 powi 128"
  shows "- 126 \<le> float_exponent x" "float_exponent x \<le> 127"
    "\<bar>x\<bar> < 2 powi (float_exponent x + 1)"
    "2 powi (float_exponent x) \<le> \<bar>x\<bar> \<or> float_exponent x = - 126"
proof -
  show "- 126 \<le> float_exponent x" "float_exponent x \<le> 127"
    using exponent_search_range [of 127 253 "\<bar>x\<bar>"] by (simp_all add: float_exponent_def)
  show "\<bar>x\<bar> < 2 powi (float_exponent x + 1)"
    using exponent_search_upper [of "\<bar>x\<bar>" 127 253] assms by (simp add: float_exponent_def)
  show "2 powi (float_exponent x) \<le> \<bar>x\<bar> \<or> float_exponent x = - 126"
    using exponent_search_lower [of "\<bar>x\<bar>" 127 253] by (simp add: float_exponent_def)
qed

lemma fl32_error_ulp: "\<bar>fl32 x - x\<bar> \<le> 2 powi (float_exponent x - 24)"
proof -
  define u :: rat where "u = 2 powi (float_exponent x - 23)"
  have u: "0 < u" by (simp add: u_def)
  have "fl32 x - x = (of_int (round_half_even (x / u)) - x / u) * u"
    using u by (simp add: fl32_def u_def [symmetric] Let_def algebra_simps)
  then have "\<bar>fl32 x - x\<bar> = \<bar>of_int (round_half_even (x / u)) - x / u\<bar> * u"
    using u by (simp add: abs_mult)
  also have "\<dots> \<le> (1 / 2) * u"
    using round_half_even_error [of "x / u"] u by (intro mult_right_mono) auto
  also have "(1 / 2) * u = 2 powi (float_exponent x - 24)"
  proof -
    have "(2::rat) powi ((float_exponent x - 24) + 1) = 2 powi (float_exponent x - 24) * 2"
      by (rule power_int_add_1) simp
    then have "u = 2 powi (float_exponent x - 24) * 2"
      by (simp add: u_def)
    then show ?thesis by simp
  qed
  finally show ?thesis .
qed

lemma fl32_error:
  assumes "\<bar>x\<bar> < 2 powi 128"
  shows "\<bar>fl32 x - x\<bar> \<le> \<bar>x\<bar> / 2 ^ 24 + 2 powi (- 150)"
proof -
  let ?e = "float_exponent x"
  have split: "(2::rat) powi (?e - 24) = 2 powi ?e / 2 ^ 24"
    by (simp add: power_int_diff)
  from float_exponent_props(4) [OF assms]
  show ?thesis
  proof
    assume "2 powi ?e \<le> \<bar>x\<bar>"
    then have "(2::rat) powi (?e - 24) \<le> \<bar>x\<bar> / 2 ^ 24"
      unfolding split by (simp add: divide_right_mono)
    moreover have "(0::rat) \<le> 2 powi (- 150)" by (rule zero_le_power_int) simp
    ultimately show ?thesis using fl32_error_ulp [of x] by linarith
  next
    assume "?e = - 126"
    then have "(2::rat) powi (?e - 24) = 2 powi (- 150)" by simp
    moreover have "0 \<le> \<bar>x\<bar> / 2 ^ 24" by simp
    ultimately show ?thesis using fl32_error_ulp [of x] by linarith
  qed
qed

lemma pow2_less_imp_less: "(2::rat) powi m < 2 powi n \<Longrightarrow> m < n"
proof (rule ccontr)
  assume lt: "(2::rat) powi m < 2 powi n" and "\<not> m < n"
  then have "n \<le> m" by simp
  then have "(2::rat) powi n \<le> 2 powi m" by (rule power_int_increasing) simp
  with lt show False by simp
qed

lemma fl32_of_int:
  assumes "\<bar>n\<bar> < 2 ^ 24"
  shows "fl32 (of_int n) = of_int n"
proof (cases "n = 0")
  case True
  then show ?thesis by (simp add: fl32_def round_half_even_def)
next
  case False
  let ?x = "of_int n :: rat"
  let ?e = "float_exponent ?x"
  have small: "\<bar>?x\<bar> < 2 powi 128"
  proof -
    have "\<bar>?x\<bar> < 2 ^ 24" using assms by (metis of_int_abs of_int_less_numeral_power_cancel_iff)
    also have "(2::rat) ^ 24 < 2 ^ 128" by simp
    finally show ?thesis by simp
  qed
  have one: "1 \<le> \<bar>?x\<bar>"
  proof -
    have "1 \<le> \<bar>n\<bar>" using False by simp
    then have "(of_int 1 :: rat) \<le> of_int \<bar>n\<bar>" by (simp only: of_int_le_iff)
    then show ?thesis by simp
  qed
  have lo: "0 \<le> ?e"
  proof -
    have "(2::rat) powi 0 < 2 powi (?e + 1)"
      using float_exponent_props(3) [OF small] one by simp
    then have "0 < ?e + 1" by (rule pow2_less_imp_less)
    then show ?thesis by simp
  qed
  have hi: "?e \<le> 23"
  proof -
    from float_exponent_props(4) [OF small] lo have "2 powi ?e \<le> \<bar>?x\<bar>" by auto
    also have "\<bar>?x\<bar> < 2 powi 24"
      using assms by (metis of_int_abs of_int_less_numeral_power_cancel_iff power_int_numeral)
    finally have "?e < 24" by (rule pow2_less_imp_less)
    then show ?thesis by simp
  qed
  define k where "k = nat (23 - ?e)"
  have u: "(2::rat) powi (?e - 23) = 1 / 2 ^ k"
  proof -
    have "?e - 23 = - int k" using hi by (simp add: k_def)
    then show ?thesis by (simp add: power_int_minus_divide)
  qed
  have "?x / (1 / 2 ^ k) = of_int (n * 2 ^ k)" by simp
  then have "round_half_even (?x / (1 / 2 ^ k)) = n * 2 ^ k"
    by (simp only: round_half_even_of_int)
  then show ?thesis
    by (simp add: fl32_def Let_def u)
qed

subsection \<open>The returned expression in integer arithmetic\<close>

text \<open>
  For a total of at most a million microseconds in absolute value, the two roundings
  of line 226 never move the result across an integer: the returned value is the
  exact quotient \<open>(100000 - t) / 1000\<close> with its fractional part discarded.
\<close>

lemma denormal_step_small: "(2::rat) powi (- 150) \<le> 1 / 2 ^ 24"
  by (simp add: power_int_minus_divide)

lemma float_to_int_between:
  assumes "of_int n < x" "x < of_int n + 1"
  shows "float_to_int x = (if 0 \<le> n then n else n + 1)"
proof -
  have fl: "\<lfloor>x\<rfloor> = n" using assms by linarith
  have ce: "\<lceil>x\<rceil> = n + 1" using assms by linarith
  show ?thesis
  proof (cases "0 \<le> n")
    case True
    then have "(0::rat) \<le> of_int n" by simp
    with assms have "0 \<le> x" by linarith
    with True fl show ?thesis by (simp add: float_to_int_def)
  next
    case False
    then have "n + 1 \<le> 0" by simp
    then have "(of_int (n + 1) :: rat) \<le> of_int 0" by (simp only: of_int_le_iff)
    with assms have "x < 0" by simp
    with False ce show ?thesis by (simp add: float_to_int_def)
  qed
qed

lemma delay_of_total_exact:
  assumes "\<bar>t\<bar> \<le> 1000000"
  shows "delay_of_total t = float_to_int ((100000 - of_int t) / 1000)"
proof (cases "1000 dvd t")
  case True
  then obtain k where k: "t = 1000 * k" by (auto simp: dvd_def)
  with assms have kb: "\<bar>k\<bar> \<le> 1000" by simp
  have a: "int_to_float t = of_int t"
    unfolding int_to_float_def using assms by (intro fl32_of_int) simp
  have b: "int_to_float MICROSECONDS_IN_A_SECOND = 1000"
    unfolding int_to_float_def MICROSECONDS_IN_A_SECOND_def using fl32_of_int [of 1000] by simp
  have c: "int_to_float (MICROSECONDS_IN_A_SECOND div PACKETS_PER_SECOND) = 100"
    unfolding int_to_float_def MICROSECONDS_IN_A_SECOND_def PACKETS_PER_SECOND_def
    using fl32_of_int [of 100] by simp
  have d: "float_div (of_int t) 1000 = of_int k"
    unfolding float_div_def using fl32_of_int [of k] kb by (simp add: k)
  have e: "float_sub 100 (of_int k) = of_int (100 - k)"
    unfolding float_sub_def using fl32_of_int [of "100 - k"] kb by simp
  have "((100000 - of_int t) / 1000 :: rat) = of_int (100 - k)" by (simp add: k)
  then show ?thesis
    by (simp only: delay_of_total_def a b c d e)
next
  case False
  define x :: rat where "x = of_int t / 1000"
  define q where "q = fl32 x"
  define y where "y = 100 - q"
  define d where "d = fl32 y"
  define r :: rat where "r = (100000 - of_int t) / 1000"
  define n where "n = (100000 - t) div 1000"
  define m where "m = (100000 - t) mod 1000"
  have a: "int_to_float t = of_int t"
    unfolding int_to_float_def using assms by (intro fl32_of_int) simp
  have b: "int_to_float MICROSECONDS_IN_A_SECOND = 1000"
    unfolding int_to_float_def MICROSECONDS_IN_A_SECOND_def using fl32_of_int [of 1000] by simp
  have c: "int_to_float (MICROSECONDS_IN_A_SECOND div PACKETS_PER_SECOND) = 100"
    unfolding int_to_float_def MICROSECONDS_IN_A_SECOND_def PACKETS_PER_SECOND_def
    using fl32_of_int [of 100] by simp
  have res: "delay_of_total t = float_to_int d"
    by (simp only: delay_of_total_def a b c float_div_def float_sub_def d_def y_def q_def x_def)
  have xb: "\<bar>x\<bar> \<le> 1000"
  proof -
    have "(of_int \<bar>t\<bar> :: rat) \<le> of_int 1000000" using assms by (simp only: of_int_le_iff)
    then show ?thesis by (simp add: x_def)
  qed
  have "\<bar>x\<bar> < 2 powi 128"
  proof -
    have "(1000::rat) < 2 ^ 128" by simp
    with xb show ?thesis by simp
  qed
  from fl32_error [OF this] have qe: "\<bar>q - x\<bar> \<le> \<bar>x\<bar> / 2 ^ 24 + 2 powi (- 150)"
    by (simp add: q_def)
  have qerr: "\<bar>q - x\<bar> \<le> 1001 / 2 ^ 24"
  proof -
    have "\<bar>x\<bar> / 2 ^ 24 \<le> 1000 / 2 ^ 24" using xb by (simp add: divide_right_mono)
    with qe denormal_step_small show ?thesis by linarith
  qed
  have yb: "\<bar>y\<bar> \<le> 1101"
  proof -
    have "(1001::rat) / 2 ^ 24 \<le> 1" by simp
    with qerr have "\<bar>q - x\<bar> \<le> 1" by linarith
    with xb show ?thesis unfolding y_def by linarith
  qed
  have "\<bar>y\<bar> < 2 powi 128"
  proof -
    have "(1101::rat) < 2 ^ 128" by simp
    with yb show ?thesis by simp
  qed
  from fl32_error [OF this] have de: "\<bar>d - y\<bar> \<le> \<bar>y\<bar> / 2 ^ 24 + 2 powi (- 150)"
    by (simp add: d_def)
  have derr: "\<bar>d - y\<bar> \<le> 1102 / 2 ^ 24"
  proof -
    have "\<bar>y\<bar> / 2 ^ 24 \<le> 1101 / 2 ^ 24" using yb by (simp add: divide_right_mono)
    with de denormal_step_small show ?thesis by linarith
  qed
  have ry: "r = 100 - x" by (simp add: r_def x_def field_simps)
  have close: "\<bar>d - r\<bar> < 1 / 1000"
  proof -
    have "d - r = (d - y) - (q - x)" by (simp add: ry y_def)
    then have "\<bar>d - r\<bar> \<le> \<bar>d - y\<bar> + \<bar>q - x\<bar>" by linarith
    moreover have "(1102::rat) / 2 ^ 24 + 1001 / 2 ^ 24 < 1 / 1000" by simp
    ultimately show ?thesis using qerr derr by linarith
  qed
  have m: "1 \<le> m" "m \<le> 999"
  proof -
    have "\<not> 1000 dvd (100000 - t)"
    proof
      assume h: "1000 dvd (100000 - t)"
      have "(1000::int) dvd 100000" by simp
      from dvd_diff [OF this h] have "1000 dvd t" by simp
      with False show False by simp
    qed
    then have "m \<noteq> 0" by (simp add: m_def dvd_eq_mod_eq_0)
    moreover have "0 \<le> m" "m < 1000" by (simp_all add: m_def)
    ultimately show "1 \<le> m" "m \<le> 999" by simp_all
  qed
  have "100000 - t = 1000 * n + m" by (simp add: n_def m_def)
  then have "(of_int (100000 - t) :: rat) = of_int (1000 * n + m)" by simp
  then have rnm: "r = of_int n + of_int m / 1000" by (simp add: r_def field_simps)
  have mq: "(1::rat) \<le> of_int m" "(of_int m :: rat) \<le> 999"
    using m by simp_all
  have rlo: "of_int n + 1 / 1000 \<le> r" and rhi: "r \<le> of_int n + 999 / 1000"
    using mq by (simp_all add: rnm)
  have dn: "of_int n < d" "d < of_int n + 1"
    using close rlo rhi by linarith+
  have rn: "of_int n < r" "r < of_int n + 1"
    using rlo rhi by linarith+
  have "float_to_int d = float_to_int r"
    by (simp only: float_to_int_between [OF dn] float_to_int_between [OF rn])
  with res show ?thesis by (simp add: r_def)
qed

lemma float_to_int_quotient:
  "float_to_int (of_int a / 1000) = (if 0 \<le> a then a div 1000 else - ((- a) div 1000))"
proof (cases "0 \<le> a")
  case True
  then have "(0::rat) \<le> of_int a / 1000" by simp
  then have "float_to_int (of_int a / 1000) = \<lfloor>(of_int a / of_int 1000 :: rat)\<rfloor>"
    by (simp add: float_to_int_def)
  also have "\<dots> = a div 1000" by (simp only: floor_divide_of_int_eq)
  finally show ?thesis using True by simp
next
  case False
  then have "(of_int a / 1000 :: rat) < 0" by simp
  then have "float_to_int (of_int a / 1000) = \<lceil>(of_int a / of_int 1000 :: rat)\<rceil>"
    by (simp add: float_to_int_def)
  also have "\<dots> = - \<lfloor>(of_int (- a) / of_int 1000 :: rat)\<rfloor>"
    by (simp add: ceiling_def)
  also have "\<dots> = - ((- a) div 1000)" by (simp only: floor_divide_of_int_eq)
  finally show ?thesis using False by simp
qed

lemma delay_of_total_div:
  assumes "\<bar>t\<bar> \<le> 1000000"
  shows "delay_of_total t =
    (if t \<le> 100000 then (100000 - t) div 1000 else - ((t - 100000) div 1000))"
proof -
  have "delay_of_total t = float_to_int (of_int (100000 - t) / 1000)"
    by (simp add: delay_of_total_exact [OF assms])
  also have "\<dots> = (if 0 \<le> 100000 - t then (100000 - t) div 1000
                     else - ((- (100000 - t)) div 1000))"
    by (rule float_to_int_quotient)
  finally show ?thesis by simp
qed

subsection \<open>The packet time\<close>

lemma int_wrap_add_left: "int_wrap w (int_wrap w k + l) = int_wrap w (k + l)"
  unfolding int_wrap_def
  using signed_take_bit_add [of "w - 1" "signed_take_bit (w - 1) k" l]
    signed_take_bit_add [of "w - 1" k l] by simp

lemma int_wrap_add_right: "int_wrap w (k + int_wrap w l) = int_wrap w (k + l)"
  using int_wrap_add_left [of w l k] by (simp add: add.commute)

lemma int_wrap_mult_left: "int_wrap w (int_wrap w k * l) = int_wrap w (k * l)"
  unfolding int_wrap_def
  using signed_take_bit_mult [of "w - 1" "signed_take_bit (w - 1) k" l]
    signed_take_bit_mult [of "w - 1" k l] by simp

lemma int_wrap_id: "- (2 ^ (w - 1)) \<le> x \<Longrightarrow> x < 2 ^ (w - 1) \<Longrightarrow> int_wrap w x = x"
  by (simp add: int_wrap_def signed_take_bit_int_eq_self)

lemma int_wrap_range: "- (2 ^ (w - 1)) \<le> int_wrap w x \<and> int_wrap w x < 2 ^ (w - 1)"
  by (simp add: int_wrap_def)

lemma total_packet_time_wrap:
  "total_packet_time w a b = int_wrap w (14296 + 688 * a + 288 * b)"
  unfolding total_packet_time_def Let_def constant_defs
  by (simp add: int_wrap_add_left int_wrap_add_right int_wrap_mult_left)

lemma total_packet_time_exact:
  assumes "0 \<le> a" "0 \<le> b" "14296 + 688 * a + 288 * b < 2 ^ (w - 1)"
  shows "total_packet_time w a b = 14296 + 688 * a + 288 * b"
proof -
  have "(0::int) \<le> 2 ^ (w - 1)" by simp
  with assms have "- (2 ^ (w - 1)) \<le> 14296 + 688 * a + 288 * b" by linarith
  with assms(3) show ?thesis by (simp only: total_packet_time_wrap int_wrap_id)
qed

lemma total_packet_time_packet:
  assumes "16 \<le> w" "0 \<le> a" "a \<le> 32"
  shows "- 32768 \<le> total_packet_time w a (32 - a)" "total_packet_time w a (32 - a) \<le> 36312"
proof -
  let ?T = "14296 + 688 * a + 288 * (32 - a)"
  have T: "23512 \<le> ?T" "?T \<le> 36312" using assms by simp_all
  have both: "- 32768 \<le> total_packet_time w a (32 - a) \<and> total_packet_time w a (32 - a) \<le> 36312"
  proof (cases "?T < 2 ^ (w - 1)")
    case True
    have "(0::int) \<le> 2 ^ (w - 1)" by simp
    with T have "- (2 ^ (w - 1)) \<le> ?T" by linarith
    with True have "total_packet_time w a (32 - a) = ?T"
      by (simp only: total_packet_time_wrap int_wrap_id)
    with T show ?thesis by simp
  next
    case False
    have "w = 16"
    proof (rule ccontr)
      assume "w \<noteq> 16"
      with assms have "16 \<le> w - 1" by simp
      then have "(2::int) ^ 16 \<le> 2 ^ (w - 1)" by (rule power_increasing) simp
      with T False show False by simp
    qed
    with int_wrap_range [of 16 ?T] show ?thesis
      by (simp add: total_packet_time_wrap)
  qed
  from both show "- 32768 \<le> total_packet_time w a (32 - a)" by simp
  from both show "total_packet_time w a (32 - a) \<le> 36312" by simp
qed

subsection \<open>The loop of sendPacket\<close>

lemma mask_test:
  fixes x :: byte
  shows "(x AND 1 \<noteq> 0) = bit x 0" "(x AND 2 \<noteq> 0) = bit x 1" "(x AND 4 \<noteq> 0) = bit x 2"
    "(x AND 8 \<noteq> 0) = bit x 3" "(x AND 16 \<noteq> 0) = bit x 4" "(x AND 32 \<noteq> 0) = bit x 5"
    "(x AND 64 \<noteq> 0) = bit x 6" "(x AND 128 \<noteq> 0) = bit x 7"
  using and_exp_eq_0_iff_not_bit [of x 0] and_exp_eq_0_iff_not_bit [of x 1]
    and_exp_eq_0_iff_not_bit [of x 2] and_exp_eq_0_iff_not_bit [of x 3]
    and_exp_eq_0_iff_not_bit [of x 4] and_exp_eq_0_iff_not_bit [of x 5]
    and_exp_eq_0_iff_not_bit [of x 6] and_exp_eq_0_iff_not_bit [of x 7]
  by simp_all

lemma length_packet_bits: "length (packet_bits a) = 32"
  by (cases a) (simp add: packet_bits_def bits_msb_first_def)

lemma int_cases4: "0 \<le> c \<Longrightarrow> c < 4 \<Longrightarrow> c = 0 \<or> c = 1 \<or> c = 2 \<or> c = (3::int)"
  by arith

lemma int_cases8:
  "0 \<le> k \<Longrightarrow> k < 8 \<Longrightarrow> k = 0 \<or> k = 1 \<or> k = 2 \<or> k = 3 \<or> k = 4 \<or> k = 5 \<or> k = 6 \<or> k = (7::int)"
  by arith

lemma tested_bit:
  assumes "0 \<le> c" "c < 4" "0 \<le> k" "k < 8"
  shows "\<exists>x m. read4 a c = Some x \<and> read_mask k = Some m
           \<and> (x AND m \<noteq> 0) = packet_bits a ! nat (8 * c + (7 - k))"
proof -
  obtain b0 b1 b2 b3 where a: "a = (b0, b1, b2, b3)" by (cases a) auto
  from int_cases4 [OF assms(1,2)] int_cases8 [OF assms(3,4)] show ?thesis
    by (elim disjE)
      (simp_all add: a read4_def read_mask_def bit_masks_def constant_defs mask_test
        packet_bits_def bits_msb_first_def)
qed


lemma send_bit_step:
  assumes "0 \<le> c" "c < 4" "0 \<le> k" "k < 8"
  shows "send_bit \<lparr>current_byte_index = c, current_bit_index = k, ones = n1, zeroes = n0,
                   packet_bytes = a\<rparr> =
         Some (\<lparr>current_byte_index = (if k = 0 then c + 1 else c),
                current_bit_index = (if k = 0 then 7 else k - 1),
                ones = n1 + (if packet_bits a ! nat (8 * c + (7 - k)) then 1 else 0),
                zeroes = n0 + (if packet_bits a ! nat (8 * c + (7 - k)) then 0 else 1),
                packet_bytes = a\<rparr>,
               symbol (packet_bits a ! nat (8 * c + (7 - k))))"
proof -
  from tested_bit [OF assms, of a] obtain x m where
    "read4 a c = Some x" "read_mask k = Some m"
    "(x AND m \<noteq> 0) = packet_bits a ! nat (8 * c + (7 - k))" by blast
  with assms(3) show ?thesis
    by (simp add: send_bit_def symbol_def BITS_IN_BYTE_def)
qed

lemma send_bits_run:
  assumes "0 \<le> c" "c \<le> 4" "0 \<le> k" "k < 8" "c = 4 \<longrightarrow> k = 7"
    and "n = nat (32 - (8 * c + (7 - k)))"
  shows "send_bits \<lparr>current_byte_index = c, current_bit_index = k, ones = n1, zeroes = n0,
                    packet_bytes = a\<rparr> tr =
         Some (\<lparr>current_byte_index = 4, current_bit_index = 7,
                ones = n1 + int (count_list (drop (nat (8 * c + (7 - k))) (packet_bits a)) True),
                zeroes = n0 + int (count_list (drop (nat (8 * c + (7 - k))) (packet_bits a)) False),
                packet_bytes = a\<rparr>,
               tr @ concat (map symbol (drop (nat (8 * c + (7 - k))) (packet_bits a))))"
  using assms
proof (induction n arbitrary: c k n1 n0 tr)
  case 0
  then have ck: "c = 4" "k = 7" by auto
  show ?case
    by (subst send_bits.simps) (simp add: ck BYTES_IN_PACKET_def length_packet_bits)
next
  case (Suc n)
  let ?i = "nat (8 * c + (7 - k))"
  let ?b = "packet_bits a ! ?i"
  from Suc.prems have c4: "c < 4" by auto
  have i32: "?i < 32" using Suc.prems by auto
  let ?c' = "if k = 0 then c + 1 else c"
  let ?k' = "if k = 0 then 7 else k - 1"
  have next_i: "nat (8 * ?c' + (7 - ?k')) = Suc ?i" using Suc.prems by auto
  have IH: "send_bits \<lparr>current_byte_index = ?c', current_bit_index = ?k',
                ones = n1 + (if ?b then 1 else 0), zeroes = n0 + (if ?b then 0 else 1),
                packet_bytes = a\<rparr> (tr @ symbol ?b) =
         Some (\<lparr>current_byte_index = 4, current_bit_index = 7,
                ones = n1 + (if ?b then 1 else 0)
                       + int (count_list (drop (Suc ?i) (packet_bits a)) True),
                zeroes = n0 + (if ?b then 0 else 1)
                       + int (count_list (drop (Suc ?i) (packet_bits a)) False),
                packet_bytes = a\<rparr>,
               (tr @ symbol ?b) @ concat (map symbol (drop (Suc ?i) (packet_bits a))))"
    using Suc.IH [of ?c' ?k' "n1 + (if ?b then 1 else 0)" "n0 + (if ?b then 0 else 1)"
        "tr @ symbol ?b"] Suc.prems
    by (simp only: next_i) auto
  have dr: "drop ?i (packet_bits a) = ?b # drop (Suc ?i) (packet_bits a)"
    using i32 by (simp add: Cons_nth_drop_Suc length_packet_bits)
  have step: "send_bits \<lparr>current_byte_index = c, current_bit_index = k, ones = n1,
                zeroes = n0, packet_bytes = a\<rparr> tr =
      send_bits \<lparr>current_byte_index = ?c', current_bit_index = ?k',
                ones = n1 + (if ?b then 1 else 0), zeroes = n0 + (if ?b then 0 else 1),
                packet_bytes = a\<rparr> (tr @ symbol ?b)"
    using c4 Suc.prems
    by (subst send_bits.simps) (simp add: send_bit_step BYTES_IN_PACKET_def)
  show ?case
    unfolding step IH dr by simp
qed

lemma count_list_bool: "int (count_list bs True) + int (count_list bs False) = int (length bs)"
  by (induction bs) auto

lemma sendPacket_eq:
  "sendPacket w s yaw pitch throttle trim =
     Some (variable_delay w (int (count_list (packet_bits (yaw, pitch, throttle, trim)) True))
                            (int (count_list (packet_bits (yaw, pitch, throttle, trim)) False)),
           \<lparr>current_byte_index = 4, current_bit_index = 7,
            ones = int (count_list (packet_bits (yaw, pitch, throttle, trim)) True),
            zeroes = int (count_list (packet_bits (yaw, pitch, throttle, trim)) False),
            packet_bytes = (yaw, pitch, throttle, trim)\<rparr>,
           [DigitalWrite STATUS HIGH] @ header
             @ concat (map symbol (packet_bits (yaw, pitch, throttle, trim)))
             @ footer @ [DigitalWrite STATUS LOW])"
proof -
  obtain c k n1 n0 a where s: "s = \<lparr>current_byte_index = c, current_bit_index = k, ones = n1,
      zeroes = n0, packet_bytes = a\<rparr>" by (cases s) auto
  obtain b0 b1 b2 b3 where a: "a = (b0, b1, b2, b3)" by (cases a) auto
  have run: "send_bits \<lparr>current_byte_index = 0, current_bit_index = 7, ones = 0, zeroes = 0,
      packet_bytes = (yaw, pitch, throttle, trim)\<rparr> ([DigitalWrite STATUS HIGH] @ header) =
    Some (\<lparr>current_byte_index = 4, current_bit_index = 7,
            ones = int (count_list (packet_bits (yaw, pitch, throttle, trim)) True),
            zeroes = int (count_list (packet_bits (yaw, pitch, throttle, trim)) False),
            packet_bytes = (yaw, pitch, throttle, trim)\<rparr>,
          ([DigitalWrite STATUS HIGH] @ header)
            @ concat (map symbol (packet_bits (yaw, pitch, throttle, trim))))"
    using send_bits_run [of 0 7 32 0 0 "(yaw, pitch, throttle, trim)"
        "[DigitalWrite STATUS HIGH] @ header"] by simp
  show ?thesis
    unfolding sendPacket_def Let_def
    by (simp add: s a write4_def YAW_def PITCH_def THROTTLE_def TRIM_def BITS_IN_BYTE_def run
          del: append.simps)
qed

subsection \<open>pulse\<close>

lemma pulse_nonpositive: "cycles \<le> 0 \<Longrightarrow> pulse cycles = []"
  by (simp add: pulse.simps)

lemma pulse_nat: "pulse (int n) = concat (replicate n carrier_cycle)"
proof (induction n)
  case 0
  show ?case by (simp add: pulse.simps)
next
  case (Suc n)
  have "pulse (int (Suc n)) = carrier_cycle @ pulse (int n)"
    by (subst pulse.simps) simp
  with Suc show ?case by simp
qed

lemma pulse_replicate: "pulse cycles = concat (replicate (nat cycles) carrier_cycle)"
proof (cases "0 \<le> cycles")
  case True
  then show ?thesis using pulse_nat [of "nat cycles"] by simp
next
  case False
  then show ?thesis by (simp add: pulse_nonpositive)
qed

lemma header_cycles:
  "header = concat (replicate 77 carrier_cycle) @ [DelayMicroseconds 1998]"
  by (simp add: header_def pulse_replicate CYCLES_FOR_HEADER_def HEADER_DELAY_def)

lemma footer_cycles: "footer = concat (replicate 12 carrier_cycle)"
  by (simp add: footer_def pulse_replicate CYCLES_FOR_FOOTER_def)

lemma packet_counts:
  "int (count_list (packet_bits a) True) + int (count_list (packet_bits a) False) = 32"
  by (simp add: count_list_bool length_packet_bits)

subsection \<open>The receiver\<close>

lemma ir_events_append: "ir_events (xs @ ys) = ir_events xs @ ir_events ys"
  by (simp add: ir_events_def)

lemma ir_events_cycles:
  "ir_events (concat (replicate n carrier_cycle)) = concat (replicate n carrier_cycle)"
  by (induction n) (simp_all add: ir_events_def carrier_cycle_def)

lemma ir_events_symbol: "ir_events (symbol b) = symbol b"
  by (simp add: symbol_def pulse_replicate ir_events_append ir_events_cycles)
     (simp add: ir_events_def one_def zero_def)

lemma ir_events_symbols: "ir_events (concat (map symbol bs)) = concat (map symbol bs)"
  by (induction bs) (simp_all add: ir_events_append ir_events_symbol, simp add: ir_events_def)

lemma ir_events_header: "ir_events header = header"
  by (simp add: header_cycles ir_events_append ir_events_cycles) (simp add: ir_events_def)

lemma ir_events_footer: "ir_events footer = footer"
  by (simp add: footer_cycles ir_events_cycles)

lemma ir_events_status: "ir_events [DigitalWrite STATUS l] = []"
  by (simp add: ir_events_def STATUS_def LED_def)

lemma count_cycles_replicate:
  assumes "take 4 rest \<noteq> carrier_cycle"
  shows "count_cycles (concat (replicate n carrier_cycle) @ rest) = (n, rest)"
proof (induction n)
  case 0
  from assms show ?case by (subst count_cycles.simps) simp
next
  case (Suc n)
  have len: "length carrier_cycle = 4" by (simp add: carrier_cycle_def)
  have "take 4 (concat (replicate (Suc n) carrier_cycle) @ rest) = carrier_cycle"
    by (simp add: len)
  moreover have "drop 4 (concat (replicate (Suc n) carrier_cycle) @ rest) =
      concat (replicate n carrier_cycle) @ rest"
    by (simp add: len)
  ultimately show ?case
    by (subst count_cycles.simps) (simp only: Suc.IH, simp)
qed

lemma receive_bit_symbol: "receive_bit (symbol b @ rest) = Some (b, rest)"
proof -
  let ?d = "if b then nat ONE else nat ZERO"
  have s: "symbol b @ rest = concat (replicate 12 carrier_cycle) @ (DelayMicroseconds ?d # rest)"
    by (simp add: symbol_def pulse_replicate CYCLES_FOR_BIT_def one_def zero_def)
  have "take 4 (DelayMicroseconds ?d # rest) \<noteq> carrier_cycle"
    by (simp add: carrier_cycle_def)
  from count_cycles_replicate [OF this, of 12] show ?thesis
    by (simp add: receive_bit_def s receiver_threshold_def ONE_def ZERO_def del: replicate.simps)
qed

lemma receive_bits_symbols:
  "receive_bits (length bs) (concat (map symbol bs) @ rest) = Some (bs, rest)"
  by (induction bs) (simp_all add: receive_bit_symbol)

lemma receive_header_header: "receive_header (header @ rest) = Some rest"
proof -
  have "take 4 (DelayMicroseconds 1998 # rest) \<noteq> carrier_cycle"
    by (simp add: carrier_cycle_def)
  from count_cycles_replicate [OF this, of 77] show ?thesis
    by (simp add: receive_header_def header_cycles del: replicate.simps)
qed

lemma receive_footer_footer: "receive_footer footer"
proof -
  have "take 4 [] \<noteq> carrier_cycle" by (simp add: carrier_cycle_def)
  from count_cycles_replicate [OF this, of 12] show ?thesis
    by (simp add: receive_footer_def footer_cycles del: replicate.simps)
qed

lemma byte_of_bits_msb_first: "byte_of_bits (bits_msb_first b) = b"
proof -
  have "[0..<8] = [0, 1, 2, 3, 4, 5, 6, 7::nat]" by (simp add: upt_conv_Cons)
  then have "rev (bits_msb_first b) = map (bit b) [0..<8]"
    by (simp add: bits_msb_first_def)
  then have "byte_of_bits (bits_msb_first b) = take_bit 8 b"
    by (simp only: byte_of_bits_def horner_sum_bit_eq_take_bit)
  then show ?thesis by (simp add: take_bit_word_eq_self)
qed

subsection \<open>The main loop\<close>


lemma read_command_four:
  "read_command 0 cmd (b0 # b1 # b2 # b3 # rest) = ((b0, b1, b2, b3), rest)"
proof -
  obtain c0 c1 c2 c3 where cmd: "cmd = (c0, c1, c2, c3)" by (cases cmd) auto
  show ?thesis
    by (simp add: cmd read_command.simps [of 0] read_command.simps [of 1]
          read_command.simps [of 2] read_command.simps [of 3] read_command.simps [of 4]
          Serial_read_def write4_def)
qed

lemma four_bytes:
  assumes "4 \<le> length rx"
  shows "rx = rx ! 0 # rx ! 1 # rx ! 2 # rx ! 3 # drop 4 rx"
proof -
  from assms obtain b0 b1 b2 b3 rest where "rx = b0 # b1 # b2 # b3 # rest"
    by (cases rx; cases "tl rx"; cases "tl (tl rx)"; cases "tl (tl (tl rx))") auto
  then show ?thesis by simp
qed

lemma poll_update_ready:
  assumes "4 \<le> length (serial_rx d)"
  shows "poll_update d =
    d\<lparr>command := (serial_rx d ! 0, serial_rx d ! 1, serial_rx d ! 2, serial_rx d ! 3),
      serial_rx := drop 4 (serial_rx d)\<rparr>"
proof -
  let ?rx = "serial_rx d"
  have "read_command 0 (command d) ?rx = ((?rx ! 0, ?rx ! 1, ?rx ! 2, ?rx ! 3), drop 4 ?rx)"
    by (subst four_bytes [OF assms]) (simp only: read_command_four)
  with assms show ?thesis
    by (simp add: poll_update_def Serial_available_def BYTES_IN_PACKET_def)
qed

lemma poll_update_wait:
  assumes "length (serial_rx d) < 4"
  shows "poll_update d = d"
  using assms by (simp add: poll_update_def Serial_available_def BYTES_IN_PACKET_def)

section \<open>The claims\<close>

subsection \<open>pulse (C10)\<close>

text \<open>
  Claim C10. \<^verbatim>\<open>pulse\<close> is a total function of its integer argument (the termination
  proof above covers every integer), and its output is exactly \<open>max cycles 0\<close> copies
  of the carrier cycle (pin high, 10us, pin low, 10us); when \<open>cycles\<close> is zero or
  negative it produces no event at all.
\<close>

theorem pulse_emits_max_cycles_0:
  "pulse cycles = concat (replicate (nat (max cycles 0)) carrier_cycle)
   \<and> length (pulse cycles) = 4 * nat (max cycles 0)
   \<and> (cycles \<le> 0 \<longrightarrow> pulse cycles = [])"
proof -
  have "nat (max cycles 0) = nat cycles" by simp
  then have a: "pulse cycles = concat (replicate (nat (max cycles 0)) carrier_cycle)"
    by (simp only: pulse_replicate)
  have "length (concat (replicate n carrier_cycle)) = 4 * n" for n
    by (induction n) (simp_all add: carrier_cycle_def)
  with a have b: "length (pulse cycles) = 4 * nat (max cycles 0)" by simp
  from a b show ?thesis by (simp add: pulse_nonpositive)
qed

theorem pulse_emits_max_cycles_0_witness:
  "(-3::int) \<le> 0 \<and> pulse (-3) = [] \<and> length (pulse (-3)) = 0
   \<and> pulse 2 = carrier_cycle @ carrier_cycle"
  using pulse_emits_max_cycles_0 [of "-3"] pulse_emits_max_cycles_0 [of 2]
  by (simp add: numeral_2_eq_2)

subsection \<open>The returned delay (C1, C6)\<close>

text \<open>
  Claim C1, as amended. The spec states that \<^verbatim>\<open>sendPacket\<close> returns the target period minus
  the total time in microseconds, \<open>100000 - (4000 + 312 + 9984 + 688 * ones + 288 * zeroes)\<close>.
  The code divides the total by 1000 before subtracting it from 100, so the value it
  returns is that difference in whole milliseconds (the fraction is discarded), which
  is the unit of \<^verbatim>\<open>delay\<close>. This holds for all counts that are not negative and whose
  total fits in an \<^verbatim>\<open>int\<close> of width \<open>w\<close> and does not exceed the period.
\<close>

theorem variable_delay_whole_milliseconds:
  assumes "0 \<le> n_ones" "0 \<le> n_zeroes"
    and "4000 + 312 + 9984 + 688 * n_ones + 288 * n_zeroes < 2 ^ (w - 1)"
    and "4000 + 312 + 9984 + 688 * n_ones + 288 * n_zeroes \<le> 100000"
  shows "variable_delay w n_ones n_zeroes =
           (100000 - (4000 + 312 + 9984 + 688 * n_ones + 288 * n_zeroes)) div 1000"
proof -
  have t: "total_packet_time w n_ones n_zeroes = 14296 + 688 * n_ones + 288 * n_zeroes"
    using assms by (intro total_packet_time_exact) simp_all
  have "\<bar>14296 + 688 * n_ones + 288 * n_zeroes\<bar> \<le> 1000000"
    using assms by simp
  from delay_of_total_div [OF this] assms(4) show ?thesis
    by (simp add: variable_delay_def t)
qed

theorem variable_delay_whole_milliseconds_witness:
  "(0::int) \<le> 18 \<and> (0::int) \<le> 14
   \<and> 4000 + 312 + 9984 + 688 * 18 + 288 * 14 < (2::int) ^ (16 - 1)
   \<and> 4000 + 312 + 9984 + 688 * 18 + 288 * 14 \<le> (100000::int)
   \<and> variable_delay 16 18 14 = 69"
  using variable_delay_whole_milliseconds [of 18 14 16] by simp

text \<open>
  The statement in microseconds fails for the all-zero command (no ones, 32 zeroes):
  the total is 23512us, the spec expects 76488 and the code returns 76, whatever the
  width of \<^verbatim>\<open>int\<close>.
\<close>

theorem variable_delay_not_microseconds:
  "variable_delay 16 0 32 = 76 \<and> variable_delay 32 0 32 = 76
   \<and> variable_delay 16 0 32 \<noteq> 100000 - (4000 + 312 + 9984 + 688 * 0 + 288 * 32)
   \<and> variable_delay 32 0 32 \<noteq> 100000 - (4000 + 312 + 9984 + 688 * 0 + 288 * 32)"
  by (simp add: variable_delay_def total_packet_time_wrap int_wrap_def delay_of_total_div)

text \<open>
  Claim C6. The spec states that, with the number of zeroes fixed, more ones never give a
  larger delay. The sketch computes \<^verbatim>\<open>total_packet_time\<close> in an \<^verbatim>\<open>int\<close>. On a board
  whose \<^verbatim>\<open>int\<close> has 16 bits the command (255, 255, 255, 0), with 24 ones and 8 zeroes,
  has a total of 33112us, above 32767: the sum of line 224 overflows, the total becomes
  33112 - 65536 = -32424 and the call returns 132, where 23 ones and 8 zeroes give 67
  (as does the command (255, 255, 254, 0), with 23 ones and 9 zeroes) and where the
  comment of lines 214 to 217 intends 100 - 33 = 66, the value returned with an
  \<^verbatim>\<open>int\<close> of 32 bits. The statement below evaluates the sketch there.
\<close>

theorem sendPacket_int16_overflow:
  "map_option fst (sendPacket 16 initial_statics 255 255 255 0) = Some 132
   \<and> map_option (\<lambda>(r, s, tr). (ones s, zeroes s)) (sendPacket 16 initial_statics 255 255 255 0)
       = Some (24, 8)
   \<and> total_packet_time 16 24 8 = - 32424
   \<and> variable_delay 16 24 8 = 132 \<and> variable_delay 16 23 8 = 67
   \<and> \<not> variable_delay 16 24 8 \<le> variable_delay 16 23 8
   \<and> map_option fst (sendPacket 16 initial_statics 255 255 254 0) = Some 67
   \<and> map_option fst (sendPacket 32 initial_statics 255 255 255 0) = Some 66"
  by (simp add: sendPacket_eq packet_bits_def bits_msb_first_def variable_delay_def
        total_packet_time_wrap int_wrap_def delay_of_total_div)

subsection \<open>The frame (C3, C9)\<close>

text \<open>
  Claim C3. For every command, every width of \<^verbatim>\<open>int\<close> and every value of the static
  variables, \<^verbatim>\<open>sendPacket\<close> returns, and its events are: the status pin high, the
  header, exactly 32 bit symbols, the footer, the status pin low. The counters of ones
  and zeroes count these symbols and add up to 32. The header is 77 carrier cycles
  followed by a delay of 1998us and the footer is 12 carrier cycles, whatever the
  command.
\<close>

theorem sendPacket_frame:
  "\<exists>r s' bits.
     sendPacket w s yaw pitch throttle trim =
       Some (r, s', [DigitalWrite STATUS HIGH] @ header @ concat (map symbol bits)
                      @ footer @ [DigitalWrite STATUS LOW])
     \<and> length bits = 32
     \<and> ones s' = int (count_list bits True) \<and> zeroes s' = int (count_list bits False)
     \<and> ones s' + zeroes s' = 32
     \<and> header = concat (replicate 77 carrier_cycle) @ [DelayMicroseconds 1998]
     \<and> footer = concat (replicate 12 carrier_cycle)"
proof -
  let ?bits = "packet_bits (yaw, pitch, throttle, trim)"
  let ?s' = "\<lparr>current_byte_index = 4, current_bit_index = 7,
      ones = int (count_list ?bits True), zeroes = int (count_list ?bits False),
      packet_bytes = (yaw, pitch, throttle, trim)\<rparr>"
  have "sendPacket w s yaw pitch throttle trim =
       Some (variable_delay w (ones ?s') (zeroes ?s'), ?s',
             [DigitalWrite STATUS HIGH] @ header @ concat (map symbol ?bits)
               @ footer @ [DigitalWrite STATUS LOW])"
    by (simp add: sendPacket_eq)
  moreover have "length ?bits = 32" by (rule length_packet_bits)
  moreover have "ones ?s' = int (count_list ?bits True)"
    "zeroes ?s' = int (count_list ?bits False)" by simp_all
  moreover have "ones ?s' + zeroes ?s' = 32" by (simp add: packet_counts)
  ultimately show ?thesis using header_cycles footer_cycles by blast
qed

text \<open>
  Claim C9. A call of \<^verbatim>\<open>sendPacket\<close> from any static state \<open>s\<close> returns some value
  \<open>r\<close>, a static state \<open>s'\<close> and events \<open>tr\<close>; a second call with the same
  command from \<open>s'\<close>, or from any other static state \<open>s0\<close>, returns the same value
  and produces the same events. The static variables carry nothing from one call
  to the next.
\<close>

theorem sendPacket_repeatable:
  "\<exists>r s' tr. sendPacket w s yaw pitch throttle trim = Some (r, s', tr)
     \<and> sendPacket w s' yaw pitch throttle trim = Some (r, s', tr)
     \<and> sendPacket w s0 yaw pitch throttle trim = Some (r, s', tr)"
  by (simp add: sendPacket_eq)

subsection \<open>The delay of a packet (C2, C8)\<close>

text \<open>
  Claim C8. For every command, whatever the width of \<^verbatim>\<open>int\<close> (at least 16 bits, as C
  requires), the total time that \<^verbatim>\<open>sendPacket\<close> computes is at most 36312, so below
  100000, and the value it returns is positive (at least 63): a negative or zero
  delay is not reachable. (With 16 bits the computed total is negative when the
  packet has 24 ones or more.)
\<close>

theorem sendPacket_delay_positive:
  assumes "16 \<le> w"
  shows "\<exists>r s' tr. sendPacket w s yaw pitch throttle trim = Some (r, s', tr)
     \<and> total_packet_time w (ones s') (zeroes s') \<le> 36312
     \<and> total_packet_time w (ones s') (zeroes s') < 100000
     \<and> r = variable_delay w (ones s') (zeroes s') \<and> 63 \<le> r \<and> 0 < r"
proof -
  let ?bits = "packet_bits (yaw, pitch, throttle, trim)"
  let ?a = "int (count_list ?bits True)"
  let ?b = "int (count_list ?bits False)"
  let ?t = "total_packet_time w ?a ?b"
  have b: "?b = 32 - ?a" using packet_counts [of "(yaw, pitch, throttle, trim)"] by simp
  have a: "0 \<le> ?a" "?a \<le> 32" using packet_counts [of "(yaw, pitch, throttle, trim)"] by simp_all
  from total_packet_time_packet [OF assms a] have t: "- 32768 \<le> ?t" "?t \<le> 36312"
    by (simp_all only: b)
  then have "\<bar>?t\<bar> \<le> 1000000" by simp
  from delay_of_total_div [OF this] t have "63 \<le> variable_delay w ?a ?b"
    by (simp add: variable_delay_def)
  with t show ?thesis by (simp add: sendPacket_eq)
qed

theorem sendPacket_delay_positive_witness:
  "(16::nat) \<le> 16 \<and> (\<exists>r s' tr. sendPacket 16 initial_statics 255 255 255 255 = Some (r, s', tr)
     \<and> total_packet_time 16 (ones s') (zeroes s') \<le> 36312 \<and> 0 < r)"
  using sendPacket_delay_positive [of 16 initial_statics 255 255 255 255] by auto

text \<open>
  Claim C2, as amended. For the command (63, 63, 0, 63) the counters are 18 ones and 14
  zeroes and the computed total is 30712us, as the spec says; the returned delay is
  69 (milliseconds), not 69288.
\<close>

theorem default_command_delay:
  assumes "16 \<le> w"
  shows "\<exists>s' tr. sendPacket w s 63 63 0 63 = Some (69, s', tr)
     \<and> ones s' = 18 \<and> zeroes s' = 14
     \<and> total_packet_time w (ones s') (zeroes s') = 30712"
proof -
  have c: "count_list (packet_bits (63, 63, 0, 63)) True = 18"
    "count_list (packet_bits (63, 63, 0, 63)) False = 14"
    by (simp_all add: packet_bits_def bits_msb_first_def)
  have "15 \<le> w - 1" using assms by simp
  then have "(2::int) ^ 15 \<le> 2 ^ (w - 1)" by (rule power_increasing) simp
  then have "14296 + 688 * 18 + 288 * 14 < (2::int) ^ (w - 1)" by simp
  then have t: "total_packet_time w 18 14 = 30712"
    using total_packet_time_exact [of 18 14 w] by simp
  have "delay_of_total 30712 = 69" by (simp add: delay_of_total_div)
  with t show ?thesis by (simp add: sendPacket_eq c variable_delay_def)
qed

theorem default_command_delay_witness:
  "(16::nat) \<le> 32 \<and> (\<exists>s' tr. sendPacket 32 initial_statics 63 63 0 63 = Some (69, s', tr)
     \<and> ones s' = 18 \<and> zeroes s' = 14)"
  using default_command_delay [of 32 initial_statics] by auto

text \<open>The value of the spec, 100000 - 30712 = 69288, is not what the call returns.\<close>

theorem default_command_not_69288:
  "map_option fst (sendPacket 16 initial_statics 63 63 0 63) = Some 69
   \<and> map_option fst (sendPacket 32 initial_statics 63 63 0 63) = Some 69
   \<and> map_option fst (sendPacket 16 initial_statics 63 63 0 63) \<noteq> Some (100000 - 30712)
   \<and> map_option fst (sendPacket 32 initial_statics 63 63 0 63) \<noteq> Some (100000 - 30712)"
  by (simp add: sendPacket_eq packet_bits_def bits_msb_first_def variable_delay_def
        total_packet_time_wrap int_wrap_def delay_of_total_div)

subsection \<open>The round trip (C4)\<close>

text \<open>
  Claim C4. For every command, the receiver of the specification, applied to the events
  of \<^verbatim>\<open>sendPacket\<close>, finds the header, reads 32 bits from the low periods (688us is
  above the threshold and read as 1, 288us is below and read as 0), finds the footer,
  and the four bytes it assembles, most significant bit first, are the four arguments
  in the order Yaw, Pitch, Throttle, Trim.
\<close>

theorem receive_packet_sendPacket:
  "\<exists>r s' tr. sendPacket w s yaw pitch throttle trim = Some (r, s', tr)
     \<and> receive_packet tr = Some [yaw, pitch, throttle, trim]"
proof -
  let ?bits = "packet_bits (yaw, pitch, throttle, trim)"
  let ?tr = "[DigitalWrite STATUS HIGH] @ header @ concat (map symbol ?bits)
               @ footer @ [DigitalWrite STATUS LOW]"
  have ir: "ir_events ?tr = header @ (concat (map symbol ?bits) @ footer)"
    by (simp only: ir_events_append ir_events_status ir_events_header ir_events_symbols
          ir_events_footer) simp
  have bits: "receive_bits 32 (concat (map symbol ?bits) @ footer) = Some (?bits, footer)"
    using receive_bits_symbols [of ?bits footer] by (simp only: length_packet_bits)
  have len8: "length (bits_msb_first b) = 8" for b by (simp add: bits_msb_first_def)
  have bytes: "byte_of_bits (take 8 ?bits) = yaw" "byte_of_bits (take 8 (drop 8 ?bits)) = pitch"
    "byte_of_bits (take 8 (drop 16 ?bits)) = throttle"
    "byte_of_bits (take 8 (drop 24 ?bits)) = trim"
    by (simp_all add: packet_bits_def len8 byte_of_bits_msb_first)
  have "receive_packet ?tr = Some [yaw, pitch, throttle, trim]"
    by (simp only: receive_packet_def ir receive_header_header bits bytes
          receive_footer_footer option.case prod.case if_True)
  then show ?thesis by (simp add: sendPacket_eq)
qed

subsection \<open>The main loop (C7, C5)\<close>

text \<open>
  Claim C7. One pass of the main loop reads the serial port only when at least four bytes
  are waiting. It then removes exactly the four oldest bytes, stores them as Yaw, Pitch,
  Throttle and Trim, and the call of \<^verbatim>\<open>sendPacket\<close> in the same pass has exactly these
  four arguments. With fewer than four bytes waiting, the buffer and \<^verbatim>\<open>command\<close> are
  left as they were and \<^verbatim>\<open>sendPacket\<close> is called with the previous command.
\<close>

theorem loop_body_update:
  "(4 \<le> length (serial_rx d) \<longrightarrow>
      (\<exists>r s' tr.
         sendPacket w (send_statics d) (serial_rx d ! 0) (serial_rx d ! 1) (serial_rx d ! 2)
           (serial_rx d ! 3) = Some (r, s', tr)
         \<and> loop_body w d =
             Some (\<lparr>command = (serial_rx d ! 0, serial_rx d ! 1, serial_rx d ! 2, serial_rx d ! 3),
                    send_statics = s', serial_rx = drop 4 (serial_rx d)\<rparr>,
                   tr @ [Delay (delay_argument r), SerialWrite READY_TO_ACCEPT_ACK])))
   \<and> (length (serial_rx d) < 4 \<longrightarrow>
      (\<exists>r s' tr.
         (case command d of (yaw, pitch, throttle, trim) \<Rightarrow>
            sendPacket w (send_statics d) yaw pitch throttle trim) = Some (r, s', tr)
         \<and> loop_body w d =
             Some (\<lparr>command = command d, send_statics = s', serial_rx = serial_rx d\<rparr>,
                   tr @ [Delay (delay_argument r), SerialWrite READY_TO_ACCEPT_ACK])))"
proof (intro conjI impI)
  assume h: "4 \<le> length (serial_rx d)"
  show "\<exists>r s' tr.
         sendPacket w (send_statics d) (serial_rx d ! 0) (serial_rx d ! 1) (serial_rx d ! 2)
           (serial_rx d ! 3) = Some (r, s', tr)
         \<and> loop_body w d =
             Some (\<lparr>command = (serial_rx d ! 0, serial_rx d ! 1, serial_rx d ! 2, serial_rx d ! 3),
                    send_statics = s', serial_rx = drop 4 (serial_rx d)\<rparr>,
                   tr @ [Delay (delay_argument r), SerialWrite READY_TO_ACCEPT_ACK])"
    by (simp add: loop_body_def poll_update_ready [OF h] sendPacket_eq)
next
  assume h: "length (serial_rx d) < 4"
  obtain yaw pitch throttle trim where c: "command d = (yaw, pitch, throttle, trim)"
    by (cases "command d") auto
  show "\<exists>r s' tr.
         (case command d of (yaw, pitch, throttle, trim) \<Rightarrow>
            sendPacket w (send_statics d) yaw pitch throttle trim) = Some (r, s', tr)
         \<and> loop_body w d =
             Some (\<lparr>command = command d, send_statics = s', serial_rx = serial_rx d\<rparr>,
                   tr @ [Delay (delay_argument r), SerialWrite READY_TO_ACCEPT_ACK])"
    by (simp add: loop_body_def poll_update_wait [OF h] c sendPacket_eq)
qed

theorem loop_body_update_witness:
  "(4::nat) \<le> length (serial_rx (initial_driver [10, 20, 30, 40, 50]))
   \<and> (\<exists>r s' tr. sendPacket 16 initial_statics 10 20 30 40 = Some (r, s', tr)
        \<and> loop_body 16 (initial_driver [10, 20, 30, 40, 50]) =
            Some (\<lparr>command = (10, 20, 30, 40), send_statics = s', serial_rx = [50]\<rparr>,
                  tr @ [Delay (delay_argument r), SerialWrite READY_TO_ACCEPT_ACK]))
   \<and> length (serial_rx (initial_driver [10, 20])) < 4
   \<and> (\<exists>r s' tr. sendPacket 16 initial_statics 63 63 0 63 = Some (r, s', tr)
        \<and> loop_body 16 (initial_driver [10, 20]) =
            Some (\<lparr>command = (63, 63, 0, 63), send_statics = s', serial_rx = [10, 20]\<rparr>,
                  tr @ [Delay (delay_argument r), SerialWrite READY_TO_ACCEPT_ACK]))"
  using loop_body_update [of "initial_driver [10, 20, 30, 40, 50]" 16]
    loop_body_update [of "initial_driver [10, 20]" 16]
  by (simp add: initial_driver_def constant_defs)



end
